theory Spec2Isabelle
  imports
    Complex_Main
    "HOL-Library.Multiset"
    "HOL-Library.Char_ord"
    "HOL-Library.List_Lexorder"
begin

section \<open>JavaScript values\<close>

text \<open>
  The two components are written in TypeScript. Their logic uses a small part of the
  language: property reads on plain objects, \<^verbatim>\<open>typeof\<close>, the relational operators
  on strings, subtraction on numbers, \<^verbatim>\<open>String(v)\<close>, and the array methods
  \<^verbatim>\<open>includes\<close>, \<^verbatim>\<open>filter\<close>, spread and \<^verbatim>\<open>sort\<close>.

  A number is an IEEE double: not-a-number, the two infinities, or a finite value. The
  finite values are modelled by the rationals (every finite double is one). The only
  arithmetic in the source is the subtraction inside the sort comparator, whose result
  is used through its sign alone; rounding and overflow change the magnitude of a
  difference of doubles but never its sign, and the difference of two distinct finite
  doubles is never zero (gradual underflow). Positive and negative zero are one value here: they
  compare equal and sort alike.
\<close>

datatype jsnum = NaN | NegInf | Finite rat | PosInf

text \<open>\<^verbatim>\<open>a - b\<close> on numbers.\<close>

fun num_sub :: "jsnum \<Rightarrow> jsnum \<Rightarrow> jsnum" where
  "num_sub NaN b = NaN"
| "num_sub a NaN = NaN"
| "num_sub PosInf PosInf = NaN"
| "num_sub NegInf NegInf = NaN"
| "num_sub PosInf b = PosInf"
| "num_sub NegInf b = NegInf"
| "num_sub (Finite a) PosInf = NegInf"
| "num_sub (Finite a) NegInf = PosInf"
| "num_sub (Finite a) (Finite b) = Finite (a - b)"

text \<open>\<^verbatim>\<open>v > 0\<close>, which is false of not-a-number.\<close>

fun is_positive :: "jsnum \<Rightarrow> bool" where
  "is_positive PosInf = True"
| "is_positive (Finite q) = (0 < q)"
| "is_positive v = False"

text \<open>
  The values read from a record are the primitive ones, functions and objects. A string
  is its sequence of code units; \<^verbatim>\<open><\<close> on two strings is the lexicographic order of
  the code units with a proper prefix smaller, which is the order of \<^typ>\<open>string\<close>
  here. A function or an object carries the text \<^verbatim>\<open>String\<close> gives of it: a
  function's source text, an object's \<^verbatim>\<open>toString()\<close>. (An object whose conversion
  to a string throws is not among these values.)
\<close>

datatype jsval =
  JUndefined | JNull | JBool bool | JNumber jsnum | JString string
| JFunction string | JObject string

text \<open>
  A record is an object, known to the table by its reference; the objects live in a
  heap. An object has its own fields, and the members it inherits along its prototype
  chain. The read \<^verbatim>\<open>obj[k]\<close> gives the own field \<open>k\<close> if there is one, else the
  inherited member \<open>k\<close> if there is one, else \<^verbatim>\<open>undefined\<close>. It cannot throw,
  since a record is an object and its fields are data.
\<close>

type_synonym ref = nat

record jsobj =
  own :: "string \<rightharpoonup> jsval"
  inherited :: "string \<rightharpoonup> jsval"

type_synonym heap = "ref \<Rightarrow> jsobj"

definition get_prop :: "jsobj \<Rightarrow> string \<Rightarrow> jsval" where
  "get_prop obj k =
     (case own obj k of
        Some v \<Rightarrow> v
      | None \<Rightarrow> (case inherited obj k of Some v \<Rightarrow> v | None \<Rightarrow> JUndefined))"

text \<open>
  An object written as a literal inherits the members of \<^verbatim>\<open>Object.prototype\<close>:
  eleven built-in functions, and \<^verbatim>\<open>__proto__\<close>, which reads as
  \<^verbatim>\<open>Object.prototype\<close> itself. The text of a built-in function is the engine's; it is
  given here as V8 prints it.
\<close>

definition native :: "string \<Rightarrow> jsval" where
  "native name = JFunction (''function '' @ name @ ''() { [native code] }'')"

definition Object_prototype :: "string \<rightharpoonup> jsval" where
  "Object_prototype =
     map_of
       [(''constructor'', native ''Object''),
        (''__defineGetter__'', native ''__defineGetter__''),
        (''__defineSetter__'', native ''__defineSetter__''),
        (''hasOwnProperty'', native ''hasOwnProperty''),
        (''__lookupGetter__'', native ''__lookupGetter__''),
        (''__lookupSetter__'', native ''__lookupSetter__''),
        (''isPrototypeOf'', native ''isPrototypeOf''),
        (''propertyIsEnumerable'', native ''propertyIsEnumerable''),
        (''toString'', native ''toString''),
        (''valueOf'', native ''valueOf''),
        (''toLocaleString'', native ''toLocaleString''),
        (''__proto__'', JObject ''[object Object]'')]"

definition object_literal :: "(string \<rightharpoonup> jsval) \<Rightarrow> jsobj" where
  "object_literal members = \<lparr>own = members, inherited = Object_prototype\<rparr>"

text \<open>
  \<^verbatim>\<open>String(v)\<close>. The digits of a finite number (\<^verbatim>\<open>Number::toString\<close>) are a
  parameter: the source never looks at them.
\<close>

fun js_String :: "(rat \<Rightarrow> string) \<Rightarrow> jsval \<Rightarrow> string" where
  "js_String digits JUndefined = ''undefined''"
| "js_String digits JNull = ''null''"
| "js_String digits (JBool b) = (if b then ''true'' else ''false'')"
| "js_String digits (JNumber NaN) = ''NaN''"
| "js_String digits (JNumber PosInf) = ''Infinity''"
| "js_String digits (JNumber NegInf) = ''-Infinity''"
| "js_String digits (JNumber (Finite q)) = digits q"
| "js_String digits (JString s) = s"
| "js_String digits (JFunction text) = text"
| "js_String digits (JObject text) = text"

subsection \<open>\<^verbatim>\<open>Array.prototype.sort\<close>\<close>

text \<open>
  \<^verbatim>\<open>sort\<close> with a comparator is stable: it moves \<open>a\<close> behind \<open>b\<close> when the
  comparator's result on them is positive (then the result on \<open>b\<close> and \<open>a\<close> is
  negative), and keeps the order of two elements on which the result is zero or
  not-a-number. For a consistent comparator that fixes the result, which a stable
  insertion sort computes. (For an inconsistent comparator the language leaves the
  order to the engine; the result is still a rearrangement of the elements.)
\<close>

fun insert_by :: "('a \<Rightarrow> 'a \<Rightarrow> jsnum) \<Rightarrow> 'a \<Rightarrow> 'a list \<Rightarrow> 'a list" where
  "insert_by cmp x [] = [x]"
| "insert_by cmp x (y # ys) =
     (if is_positive (cmp x y) then y # insert_by cmp x ys else x # y # ys)"

fun array_sort :: "('a \<Rightarrow> 'a \<Rightarrow> jsnum) \<Rightarrow> 'a list \<Rightarrow> 'a list" where
  "array_sort cmp [] = []"
| "array_sort cmp (x # xs) = insert_by cmp x (array_sort cmp xs)"

section \<open>The table: \<^verbatim>\<open>src/components/datatable.tsx\<close>\<close>

datatype direction = Asc | Desc

record sort_config =
  key :: string
  direction :: direction

record Column =
  key :: string
  header :: string

text \<open>
  The props. \<open>data\<close> holds the references of the records, in order. The optional
  flags have their defaults applied. \<open>onRowSelect\<close> says whether the caller supplied
  the callback; the calls made to it are logged in the state.
\<close>

record DataTableProps =
  data :: "ref list"
  columns :: "Column list"
  loading :: bool
  selectable :: bool
  onRowSelect :: bool

text \<open>
  The two \<^verbatim>\<open>useState\<close> cells, and the log of the arguments \<^verbatim>\<open>onRowSelect\<close> was
  called with, oldest first.
\<close>

record DataTableState =
  selectedRows :: "ref list"
  sortConfig :: "sort_config option"
  onRowSelect_calls :: "ref list list"

definition initial_state :: DataTableState where
  "initial_state = \<lparr>selectedRows = [], sortConfig = None, onRowSelect_calls = []\<rparr>"

text \<open>Lines 41 to 57. \<^verbatim>\<open>includes\<close> and \<^verbatim>\<open>!==\<close> compare objects by reference.\<close>

definition handleRowClick :: "DataTableProps \<Rightarrow> DataTableState \<Rightarrow> ref \<Rightarrow> DataTableState" where
  "handleRowClick p s row =
     (let isSelected = (row \<in> set (selectedRows s));
          newSelectedRows =
            (if isSelected then filter (\<lambda>r. r \<noteq> row) (selectedRows s)
             else selectedRows s @ [row])
      in s\<lparr>selectedRows := newSelectedRows,
            onRowSelect_calls :=
              (if onRowSelect p then onRowSelect_calls s @ [newSelectedRows]
               else onRowSelect_calls s)\<rparr>)"

text \<open>Lines 60 to 66.\<close>

definition handleSort :: "DataTableState \<Rightarrow> string \<Rightarrow> DataTableState" where
  "handleSort s k =
     (let direction =
            (case sortConfig s of
               None \<Rightarrow> Asc
             | Some c \<Rightarrow> if sort_config.key c = k \<and> direction c = Asc then Desc else Asc)
      in s\<lparr>sortConfig := Some \<lparr>sort_config.key = k, direction = direction\<rparr>\<rparr>)"

text \<open>The comparator of lines 72 to 92, on the two values read from the records.\<close>

fun compare_values :: "direction \<Rightarrow> jsval \<Rightarrow> jsval \<Rightarrow> jsnum" where
  "compare_values d (JString aValue) (JString bValue) =
     (if aValue < bValue then (if d = Asc then Finite (- 1) else Finite 1)
      else if bValue < aValue then (if d = Asc then Finite 1 else Finite (- 1))
      else Finite 0)"
| "compare_values d (JNumber aValue) (JNumber bValue) =
     (if d = Asc then num_sub aValue bValue else num_sub bValue aValue)"
| "compare_values d aValue bValue = Finite 0"

definition comparator :: "heap \<Rightarrow> sort_config \<Rightarrow> ref \<Rightarrow> ref \<Rightarrow> jsnum" where
  "comparator h c a b =
     compare_values (direction c)
       (get_prop (h a) (sort_config.key c)) (get_prop (h b) (sort_config.key c))"

text \<open>Lines 69 to 95: the value of \<^verbatim>\<open>sortedData\<close>, as the list of its elements.\<close>

definition sortedData :: "heap \<Rightarrow> ref list \<Rightarrow> sort_config option \<Rightarrow> ref list" where
  "sortedData h dat sc =
     (let sortableItems = dat
      in case sc of
           None \<Rightarrow> sortableItems
         | Some c \<Rightarrow> array_sort (comparator h c) sortableItems)"

text \<open>
  The same lines with the arrays in memory, to follow what the in-place \<^verbatim>\<open>sort\<close>
  writes to. An array is known by its address, its position in \<open>arrays\<close>; a new
  array is allocated at the end. \<^verbatim>\<open>[...data]\<close> allocates a copy, and
  \<^verbatim>\<open>sort\<close> overwrites the array it is called on.
\<close>

type_synonym aref = nat

record memory =
  objects :: heap
  arrays :: "ref list list"

definition spread :: "memory \<Rightarrow> aref \<Rightarrow> memory \<times> aref" where
  "spread m a = (m\<lparr>arrays := arrays m @ [arrays m ! a]\<rparr>, length (arrays m))"

definition sort_in_place :: "(ref \<Rightarrow> ref \<Rightarrow> jsnum) \<Rightarrow> aref \<Rightarrow> memory \<Rightarrow> memory" where
  "sort_in_place cmp a m = m\<lparr>arrays := (arrays m)[a := array_sort cmp (arrays m ! a)]\<rparr>"

definition sortedData_mem :: "memory \<Rightarrow> aref \<Rightarrow> sort_config option \<Rightarrow> memory \<times> aref" where
  "sortedData_mem m dat sc =
     (let (m1, sortableItems) = spread m dat;
          m2 = (case sc of
                  None \<Rightarrow> m1
                | Some c \<Rightarrow> sort_in_place (comparator (objects m1) c) sortableItems m1)
      in (m2, sortableItems))"

text \<open>
  The values the comparator orders: strings among themselves, and numbers other than
  not-a-number among themselves; on any other pair of values it answers zero.
  \<open>js_less\<close> is \<^verbatim>\<open><\<close> on two strings or two numbers. The values of a column
  are totally ordered when they are all strings or all such numbers, or when there is at
  most one of them.
\<close>

fun is_string :: "jsval \<Rightarrow> bool" where
  "is_string (JString s) = True"
| "is_string v = False"

fun is_ordered_number :: "jsval \<Rightarrow> bool" where
  "is_ordered_number (JNumber NaN) = False"
| "is_ordered_number (JNumber n) = True"
| "is_ordered_number v = False"

fun num_less :: "jsnum \<Rightarrow> jsnum \<Rightarrow> bool" where
  "num_less NegInf (Finite b) = True"
| "num_less NegInf PosInf = True"
| "num_less (Finite a) (Finite b) = (a < b)"
| "num_less (Finite a) PosInf = True"
| "num_less a b = False"

fun js_less :: "jsval \<Rightarrow> jsval \<Rightarrow> bool" where
  "js_less (JString a) (JString b) = (a < b)"
| "js_less (JNumber a) (JNumber b) = num_less a b"
| "js_less a b = False"

definition column_values :: "heap \<Rightarrow> string \<Rightarrow> ref list \<Rightarrow> jsval list" where
  "column_values h k dat = map (\<lambda>r. get_prop (h r) k) dat"

definition totally_ordered :: "jsval list \<Rightarrow> bool" where
  "totally_ordered vs =
     (length vs \<le> 1 \<or> list_all is_string vs \<or> list_all is_ordered_number vs)"

subsection \<open>What the table renders\<close>






text \<open>Line 180: \<^verbatim>\<open>String(row[column.key])\<close>.\<close>

definition cell_text :: "(rat \<Rightarrow> string) \<Rightarrow> heap \<Rightarrow> ref \<Rightarrow> Column \<Rightarrow> string" where
  "cell_text digits h row column = js_String digits (get_prop (h row) (Column.key column))"




subsection \<open>Events\<close>

text \<open>
  The component changes state on a click on a body row (line 166) or on a column header
  (line 143), and its owner can render it again with other props; the state cells live
  on across renders. A click can only land on an element that is rendered: one on a
  row or header that is not on the screen is no event, and leaves everything as it is.
\<close>

datatype event = RowClick ref | HeaderClick string | NewProps DataTableProps

definition row_onClick :: "DataTableProps \<Rightarrow> DataTableState \<Rightarrow> ref \<Rightarrow> DataTableState" where
  "row_onClick p s row = (if selectable p then handleRowClick p s row else s)"

definition table_shown :: "DataTableProps \<Rightarrow> bool" where
  "table_shown p = (\<not> loading p \<and> data p \<noteq> [])"

fun dispatch ::
  "heap \<Rightarrow> DataTableProps \<times> DataTableState \<Rightarrow> event \<Rightarrow> DataTableProps \<times> DataTableState" where
  "dispatch h (p, s) (RowClick row) =
     (if table_shown p \<and> row \<in> set (sortedData h (data p) (sortConfig s))
      then (p, row_onClick p s row) else (p, s))"
| "dispatch h (p, s) (HeaderClick k) =
     (if table_shown p \<and> k \<in> set (map Column.key (columns p))
      then (p, handleSort s k) else (p, s))"
| "dispatch h (p, s) (NewProps p') = (p', s)"

definition run :: "heap \<Rightarrow> DataTableProps \<Rightarrow> event list \<Rightarrow> DataTableProps \<times> DataTableState" where
  "run h p evs = foldl (dispatch h) (p, initial_state) evs"

text \<open>
  A run in which no new props take a selected record out of the data: each
  \<open>NewProps\<close> carries a \<open>data\<close> that holds every record selected at that moment.
\<close>

fun keeps_selected ::
  "heap \<Rightarrow> DataTableProps \<times> DataTableState \<Rightarrow> event list \<Rightarrow> bool" where
  "keeps_selected h c [] = True"
| "keeps_selected h c (NewProps p' # evs) =
     (list_all (\<lambda>r. r \<in> set (data p')) (selectedRows (snd c))
      \<and> keeps_selected h (dispatch h c (NewProps p')) evs)"
| "keeps_selected h c (ev # evs) = keeps_selected h (dispatch h c ev) evs"

text \<open>
  Two values the comparator orders: both strings, or both numbers other than
  not-a-number.
\<close>

definition comparable :: "jsval \<Rightarrow> jsval \<Rightarrow> bool" where
  "comparable v w =
     (is_string v \<and> is_string w \<or> is_ordered_number v \<and> is_ordered_number w)"

text \<open>The selection holds records of the current data only.\<close>

definition within_data :: "DataTableProps \<times> DataTableState \<Rightarrow> bool" where
  "within_data c = (set (selectedRows (snd c)) \<subseteq> set (data (fst c)))"

subsection \<open>The sample data of the table's stories\<close>

text \<open>
  The four users and three columns of the stories, the users at the references 0 to 3.
\<close>

definition user :: "rat \<Rightarrow> string \<Rightarrow> rat \<Rightarrow> string \<Rightarrow> jsobj" where
  "user i n a c =
     object_literal
       [''id'' \<mapsto> JNumber (Finite i), ''name'' \<mapsto> JString n,
        ''age'' \<mapsto> JNumber (Finite a), ''city'' \<mapsto> JString c]"

definition sampleHeap :: heap where
  "sampleHeap r =
     (if r = 0 then user 1 ''John Doe'' 28 ''New York''
      else if r = 1 then user 2 ''Jane Smith'' 34 ''London''
      else if r = 2 then user 3 ''Peter Jones'' 45 ''Paris''
      else if r = 3 then user 4 ''Alice Williams'' 23 ''Sydney''
      else object_literal Map.empty)"

definition sampleData :: "ref list" where
  "sampleData = [0, 1, 2, 3]"

definition sampleColumns :: "Column list" where
  "sampleColumns =
     [\<lparr>Column.key = ''name'', header = ''Name''\<rparr>,
      \<lparr>Column.key = ''age'', header = ''Age''\<rparr>,
      \<lparr>Column.key = ''city'', header = ''City''\<rparr>]"

definition SelectableRows :: DataTableProps where
  "SelectableRows =
     \<lparr>data = sampleData, columns = sampleColumns, loading = False, selectable = True,
      onRowSelect = True\<rparr>"

definition sampleMemory :: memory where
  "sampleMemory = \<lparr>objects = sampleHeap, arrays = [sampleData]\<rparr>"

definition sampleEvents :: "event list" where
  "sampleEvents =
     [RowClick 0, HeaderClick ''age'', RowClick 1,
      NewProps (SelectableRows\<lparr>data := [1, 0]\<rparr>), RowClick 0]"

section \<open>The input field\<close>

text \<open>
  The repository holds two versions of the field. Both take the ten props of
  \<open>InputFieldProps_base\<close>; the version with the stories takes \<open>isPassword\<close> and
  \<open>isClearable\<close> as well. An optional string is \<open>None\<close> when the caller left it
  out; an optional flag that is left out counts as false. \<open>onChange\<close> says whether the
  caller supplied the callback. The styling is left out of what is rendered.
\<close>

datatype variant = Filled | Outlined | Ghost
datatype size_preset = Sm | Md | Lg

record InputFieldProps_base =
  "value" :: "string option"
  onChange :: bool
  label :: "string option"
  placeholder :: "string option"
  helperText :: "string option"
  errorMessage :: "string option"
  disabled :: bool
  invalid :: bool
  variant :: "variant option"
  size_preset :: "size_preset option"

record InputFieldProps = InputFieldProps_base +
  isPassword :: bool
  isClearable :: bool

datatype input_type = Password | Text
datatype message = ErrorMessage string | HelperText string

text \<open>
  What is rendered: the label, the \<^verbatim>\<open>input\<close> element's type, value,
  placeholder and disabled flag, whether the clear button and the visibility toggle are
  there, and the line under the field.
\<close>

record InputView =
  label_shown :: "string option"
  input_type :: input_type
  input_value :: "string option"
  input_placeholder :: "string option"
  input_disabled :: bool
  clear_button :: bool
  toggle_button :: bool
  message :: "message option"

text \<open>An optional string in a condition: \<^verbatim>\<open>undefined\<close> and the empty string are falsy.\<close>

fun truthy :: "string option \<Rightarrow> bool" where
  "truthy None = False"
| "truthy (Some s) = (s \<noteq> [])"

definition shown_label :: "string option \<Rightarrow> string option" where
  "shown_label l = (if truthy l then l else None)"

definition shown_message :: "bool \<Rightarrow> string option \<Rightarrow> string option \<Rightarrow> message option" where
  "shown_message is_invalid error_text helper_text =
     (if is_invalid \<and> truthy error_text then map_option ErrorMessage error_text
      else if truthy helper_text then map_option HelperText helper_text
      else None)"

text \<open>
  \<^verbatim>\<open>toLowerCase\<close> maps the letters A to Z to a to z. Outside ASCII it changes
  other code units too, but none into a letter of the word looked for below, so they
  are left as they are here. \<^verbatim>\<open>includes\<close> looks for the second string at every
  position of the first.
\<close>

definition lower_char :: "char \<Rightarrow> char" where
  "lower_char c =
     (case map_of (zip ''ABCDEFGHIJKLMNOPQRSTUVWXYZ'' ''abcdefghijklmnopqrstuvwxyz'') c of
        None \<Rightarrow> c
      | Some d \<Rightarrow> d)"

definition toLowerCase :: "string \<Rightarrow> string" where
  "toLowerCase s = map lower_char s"

definition str_includes :: "string \<Rightarrow> string \<Rightarrow> bool" where
  "str_includes s t = list_ex (\<lambda>i. take (length t) (drop i s) = t) [0..<Suc (length s)]"

subsection \<open>The version without a password flag: \<^verbatim>\<open>src/unnamed/part_001\<close>\<close>

text \<open>
  Its only state is \<open>isPasswordVisible\<close>: \<^verbatim>\<open>useState(false)\<close> on line 38 gives
  its first value, and the toggle's click on line 90 negates it.
\<close>

definition isPasswordVisible_initial :: bool where
  "isPasswordVisible_initial = False"

definition toggle_onClick_plain :: "bool \<Rightarrow> bool" where
  "toggle_onClick_plain isPasswordVisible = (\<not> isPasswordVisible)"

definition InputField_plain :: "InputFieldProps_base \<Rightarrow> bool \<Rightarrow> InputView" where
  "InputField_plain p isPasswordVisible =
     \<lparr>label_shown = shown_label (label p),
      input_type = (if isPasswordVisible then Text else Password),
      input_value = InputFieldProps_base.value p,
      input_placeholder = placeholder p,
      input_disabled = disabled p,
      clear_button = False,
      toggle_button =
        (case label p of
           None \<Rightarrow> False
         | Some l \<Rightarrow> str_includes (toLowerCase l) ''password''),
      message = shown_message (invalid p) (errorMessage p) (helperText p)\<rparr>"

text \<open>
  What it is for a text to read \<open>password\<close> when the case of its letters is ignored,
  letter by letter, in the words of the specification rather than of the code: eight
  characters, the first a small or a capital p, the second a small or a capital a, and
  so on.
\<close>

definition spells_password :: "string \<Rightarrow> bool" where
  "spells_password w =
     list_all2 (\<lambda>c cs. c \<in> set cs) w
       [''pP'', ''aA'', ''sS'', ''sS'', ''wW'', ''oO'', ''rR'', ''dD'']"

text \<open>Two uses of this version: a label with capitals in the word, and a label without it.\<close>

definition plain_field :: "string \<Rightarrow> InputFieldProps_base" where
  "plain_field l =
     \<lparr>InputFieldProps_base.value = None, onChange = False, label = Some l,
      placeholder = None, helperText = None, errorMessage = None, disabled = False,
      invalid = False, variant = None, size_preset = None\<rparr>"

subsection \<open>The version with the stories: \<^verbatim>\<open>src/unnamed/part_000\<close>\<close>

text \<open>
  The two \<^verbatim>\<open>useState\<close> cells (lines 42 and 43), and the log of the values
  \<^verbatim>\<open>onChange\<close> was called with (the \<^verbatim>\<open>target.value\<close> of each event), oldest
  first.
\<close>

record InputFieldState =
  "value" :: string
  showPassword :: bool
  onChange_calls :: "string list"

definition initial_field_state :: "InputFieldProps \<Rightarrow> InputFieldState" where
  "initial_field_state p =
     \<lparr>value =
        (case InputFieldProps_base.value p of
           None \<Rightarrow> []
         | Some controlledValue \<Rightarrow> controlledValue),
      showPassword = False,
      onChange_calls = []\<rparr>"

text \<open>Lines 46 to 51.\<close>

definition handleInputChange ::
  "InputFieldProps \<Rightarrow> InputFieldState \<Rightarrow> string \<Rightarrow> InputFieldState" where
  "handleInputChange p s v =
     s\<lparr>value := v,
       onChange_calls := (if onChange p then onChange_calls s @ [v] else onChange_calls s)\<rparr>"

text \<open>Lines 54 to 59.\<close>

definition handleClear :: "InputFieldProps \<Rightarrow> InputFieldState \<Rightarrow> InputFieldState" where
  "handleClear p s =
     s\<lparr>value := [],
       onChange_calls := (if onChange p then onChange_calls s @ [[]] else onChange_calls s)\<rparr>"

text \<open>Line 124, the click on the visibility toggle.\<close>

definition toggle_onClick :: "InputFieldState \<Rightarrow> InputFieldState" where
  "toggle_onClick s = s\<lparr>showPassword := \<not> showPassword s\<rparr>"

text \<open>Lines 87 to 144.\<close>

definition InputField :: "InputFieldProps \<Rightarrow> InputFieldState \<Rightarrow> InputView" where
  "InputField p s =
     \<lparr>label_shown = shown_label (label p),
      input_type = (if isPassword p \<and> \<not> showPassword s then Password else Text),
      input_value = Some (value s),
      input_placeholder = placeholder p,
      input_disabled = disabled p,
      clear_button = (isClearable p \<and> value s \<noteq> []),
      toggle_button = isPassword p,
      message = shown_message (invalid p) (errorMessage p) (helperText p)\<rparr>"

text \<open>Two of the stories.\<close>

definition PasswordWithToggle :: InputFieldProps where
  "PasswordWithToggle =
     \<lparr>InputFieldProps_base.value = None, onChange = False, label = Some ''Password'',
      placeholder = Some ''Enter your password'',
      helperText = Some ''Password must be at least 8 characters long.'',
      errorMessage = None, disabled = False, invalid = False, variant = None,
      size_preset = None, isPassword = True, isClearable = False\<rparr>"

definition ClearableInput :: InputFieldProps where
  "ClearableInput =
     \<lparr>InputFieldProps_base.value = Some ''Initial value'', onChange = True,
      label = Some ''Search'', placeholder = Some ''Type to search...'',
      helperText = None, errorMessage = None, disabled = False, invalid = False,
      variant = None, size_preset = None, isPassword = False, isClearable = True\<rparr>"

section \<open>Sorting\<close>

subsection \<open>The sort rearranges\<close>

lemma set_insert_by: "set (insert_by cmp x xs) = insert x (set xs)"
  by (induction xs) auto

lemma mset_insert_by: "mset (insert_by cmp x xs) = add_mset x (mset xs)"
  by (induction xs) auto

lemma mset_array_sort: "mset (array_sort cmp xs) = mset xs"
  by (induction xs) (auto simp: mset_insert_by)

lemma set_array_sort: "set (array_sort cmp xs) = set xs"
  using mset_array_sort [of cmp xs] by (metis set_mset_mset)

lemma distinct_array_sort: "distinct (array_sort cmp xs) = distinct xs"
  using mset_array_sort [of cmp xs] by (metis mset_eq_imp_distinct_iff)

lemma mset_sortedData: "mset (sortedData h dat sc) = mset dat"
  by (cases sc) (simp_all add: sortedData_def mset_array_sort)

lemma set_sortedData: "set (sortedData h dat sc) = set dat"
  using mset_sortedData [of h dat sc] by (metis set_mset_mset)

text \<open>
  With the arrays in memory, \<open>sortedData\<close> leaves the memory as it was but for one
  new array, which holds the sorted elements.
\<close>

lemma sortedData_mem_eq:
  "sortedData_mem m dat sc =
     (m\<lparr>arrays := arrays m @ [sortedData (objects m) (arrays m ! dat) sc]\<rparr>,
      length (arrays m))"
  by (cases sc) (simp_all add: sortedData_mem_def spread_def sort_in_place_def sortedData_def)

text \<open>
  C5. For every record collection (an allocated array \<open>dat\<close>) and every sort state,
  the sorted output holds exactly the record references of the input, each as often as
  the input does; it is a new array, the input array and every other array that existed
  are unchanged, and so are the records.
\<close>

theorem sorting_permutes_a_copy:
  assumes "dat < length (arrays m)"
    and "sortedData_mem m dat sc = (m', out)"
  shows "mset (arrays m' ! out) = mset (arrays m ! dat)
         \<and> arrays m' ! out = sortedData (objects m) (arrays m ! dat) sc
         \<and> out \<noteq> dat
         \<and> arrays m' ! dat = arrays m ! dat
         \<and> take (length (arrays m)) (arrays m') = arrays m
         \<and> objects m' = objects m"
proof -
  have m': "m' = m\<lparr>arrays := arrays m @ [sortedData (objects m) (arrays m ! dat) sc]\<rparr>"
    and out: "out = length (arrays m)"
    using assms(2) by (simp_all add: sortedData_mem_eq)
  show ?thesis using assms(1) by (simp add: m' out mset_sortedData nth_append)
qed

text \<open>The sample users sorted by age, ascending: the input array stays, a new one is made.\<close>

theorem sorting_permutes_a_copy_witness:
  "(0::nat) < length (arrays sampleMemory)
   \<and> sortedData_mem sampleMemory 0 (Some \<lparr>sort_config.key = ''age'', direction = Asc\<rparr>)
       = (\<lparr>objects = sampleHeap, arrays = [[0, 1, 2, 3], [3, 0, 1, 2]]\<rparr>, 1)
   \<and> mset (arrays \<lparr>objects = sampleHeap, arrays = [[0, 1, 2, 3], [3, 0, 1, 2]]\<rparr> ! 1)
       = mset (arrays sampleMemory ! 0)
   \<and> arrays \<lparr>objects = sampleHeap, arrays = [[0, 1, 2, 3], [3, 0, 1, 2]]\<rparr> ! 0
       = arrays sampleMemory ! 0"
proof -
  have 1: "(0::nat) < length (arrays sampleMemory)"
    by (simp add: sampleMemory_def)
  have 2: "sortedData_mem sampleMemory 0 (Some \<lparr>sort_config.key = ''age'', direction = Asc\<rparr>)
       = (\<lparr>objects = sampleHeap, arrays = [[0, 1, 2, 3], [3, 0, 1, 2]]\<rparr>, 1)"
    by (simp add: sortedData_mem_def spread_def sort_in_place_def sampleMemory_def
        sampleData_def comparator_def sampleHeap_def user_def object_literal_def get_prop_def)
  show ?thesis using 1 2 sorting_permutes_a_copy [OF 1 2] by blast
qed

subsection \<open>The sort orders\<close>

text \<open>
  When the comparator's sign follows a relation that is transitive and total on the
  elements, the insertion sort of distinct elements is sorted by that relation.
\<close>

lemma sorted_insert_by:
  assumes pos: "\<And>a b. a \<in> A \<Longrightarrow> b \<in> A \<Longrightarrow> is_positive (cmp a b) = L b a"
    and total: "\<And>a b. a \<in> A \<Longrightarrow> b \<in> A \<Longrightarrow> a \<noteq> b \<Longrightarrow> L a b \<or> L b a"
    and trans: "\<And>a b c. a \<in> A \<Longrightarrow> b \<in> A \<Longrightarrow> c \<in> A \<Longrightarrow> L a b \<Longrightarrow> L b c \<Longrightarrow> L a c"
    and "x \<in> A" "set xs \<subseteq> A" "x \<notin> set xs" "sorted_wrt L xs"
  shows "sorted_wrt L (insert_by cmp x xs)"
  using assms(4-)
proof (induction xs)
  case Nil
  then show ?case by simp
next
  case (Cons y ys)
  have mem: "x \<in> A" "y \<in> A" "set ys \<subseteq> A" and ne: "x \<noteq> y"
    and srt: "sorted_wrt L ys" and ybelow: "\<forall>z\<in>set ys. L y z"
    using Cons.prems by auto
  have ih: "sorted_wrt L (insert_by cmp x ys)"
    using Cons.IH Cons.prems by simp
  show ?case
  proof (cases "is_positive (cmp x y)")
    case True
    then have "L y x" using pos [OF mem(1,2)] by simp
    with ih ybelow True show ?thesis by (simp add: set_insert_by)
  next
    case False
    then have "\<not> L y x" using pos [OF mem(1,2)] by simp
    then have xy: "L x y" using total [OF mem(1,2) ne] by simp
    have "L x z" if "z \<in> set ys" for z
    proof -
      have "z \<in> A" using that mem(3) by auto
      moreover have "L y z" using bspec [OF ybelow that] .
      ultimately show ?thesis using trans [OF mem(1,2) _ xy] by simp
    qed
    with False xy srt ybelow show ?thesis by simp
  qed
qed

lemma sorted_array_sort:
  assumes pos: "\<And>a b. a \<in> A \<Longrightarrow> b \<in> A \<Longrightarrow> is_positive (cmp a b) = L b a"
    and total: "\<And>a b. a \<in> A \<Longrightarrow> b \<in> A \<Longrightarrow> a \<noteq> b \<Longrightarrow> L a b \<or> L b a"
    and trans: "\<And>a b c. a \<in> A \<Longrightarrow> b \<in> A \<Longrightarrow> c \<in> A \<Longrightarrow> L a b \<Longrightarrow> L b c \<Longrightarrow> L a c"
    and "set xs \<subseteq> A" "distinct xs"
  shows "sorted_wrt L (array_sort cmp xs)"
  using assms(4-)
proof (induction xs)
  case Nil
  then show ?case by simp
next
  case (Cons x xs)
  have "sorted_wrt L (insert_by cmp x (array_sort cmp xs))"
  proof (rule sorted_insert_by [where A = A and L = L])
    show "sorted_wrt L (array_sort cmp xs)" using Cons by simp
    show "x \<in> A" using Cons.prems by simp
    show "set (array_sort cmp xs) \<subseteq> A" using Cons.prems by (simp add: set_array_sort)
    show "x \<notin> set (array_sort cmp xs)" using Cons.prems by (simp add: set_array_sort)
  qed (fact pos total trans)+
  then show ?case by simp
qed

text \<open>Two lists of the same distinct elements, sorted by an asymmetric relation, are equal.\<close>

lemma sorted_wrt_unique:
  assumes asym: "\<And>a b. a \<in> A \<Longrightarrow> b \<in> A \<Longrightarrow> L a b \<Longrightarrow> \<not> L b a"
    and "sorted_wrt L xs" "sorted_wrt L ys" "distinct xs" "distinct ys"
      "set xs = set ys" "set xs \<subseteq> A"
  shows "xs = ys"
  using assms(2-)
proof (induction xs arbitrary: ys)
  case Nil
  then show ?case by simp
next
  case (Cons x xs)
  from Cons.prems(5) obtain y ys' where ys: "ys = y # ys'" by (cases ys) auto
  have xA: "x \<in> A" and xsA: "set xs \<subseteq> A" using Cons.prems(6) by simp_all
  have sx: "\<forall>z\<in>set xs. L x z" "sorted_wrt L xs" using Cons.prems(1) by simp_all
  have sy: "\<forall>z\<in>set ys'. L y z" "sorted_wrt L ys'" using Cons.prems(2) ys by simp_all
  have dx: "x \<notin> set xs" "distinct xs" using Cons.prems(3) by simp_all
  have dy: "y \<notin> set ys'" "distinct ys'" using Cons.prems(4) ys by simp_all
  have eq: "insert x (set xs) = insert y (set ys')" using Cons.prems(5) ys by simp
  have xy: "x = y"
  proof (rule ccontr)
    assume ne: "x \<noteq> y"
    have xys: "x \<in> set ys'" using eq ne by auto
    have 1: "L y x" using bspec [OF sy(1) xys] .
    have yxs: "y \<in> set xs" using eq ne by auto
    have 2: "L x y" using bspec [OF sx(1) yxs] .
    have "y \<in> A" using yxs xsA by auto
    then show False using asym [OF xA _ 2] 1 by simp
  qed
  have "set xs = set ys'" using eq xy dx(1) dy(1) by auto
  then have "xs = ys'" using Cons.IH [of ys'] sx(2) sy(2) dx(2) dy(2) xsA by simp
  with xy ys show ?case by simp
qed

subsection \<open>The comparator on ordered values\<close>

lemma is_positive_num_sub:
  "a \<noteq> NaN \<Longrightarrow> b \<noteq> NaN \<Longrightarrow> is_positive (num_sub a b) = num_less b a"
  by (cases a; cases b) auto

lemma num_less_trans: "num_less a b \<Longrightarrow> num_less b c \<Longrightarrow> num_less a c"
  by (cases a; cases b; cases c) auto

lemma num_less_asym: "num_less a b \<Longrightarrow> \<not> num_less b a"
  by (cases a; cases b) auto

lemma num_less_total:
  "a \<noteq> NaN \<Longrightarrow> b \<noteq> NaN \<Longrightarrow> a \<noteq> b \<Longrightarrow> num_less a b \<or> num_less b a"
  by (cases a; cases b) auto

lemma is_string_iff: "is_string v = (\<exists>s. v = JString s)"
  by (cases v) auto

lemma is_ordered_number_iff: "is_ordered_number v = (\<exists>n. v = JNumber n \<and> n \<noteq> NaN)"
proof (cases v)
  case (JNumber n)
  then show ?thesis by (cases n) auto
qed auto

lemma is_positive_compare_Asc:
  "comparable v w \<Longrightarrow> is_positive (compare_values Asc v w) = js_less w v"
  by (auto simp: comparable_def is_string_iff is_ordered_number_iff is_positive_num_sub
      split: if_splits)

lemma is_positive_compare_Desc:
  "comparable v w \<Longrightarrow> is_positive (compare_values Desc v w) = js_less v w"
  by (auto simp: comparable_def is_string_iff is_ordered_number_iff is_positive_num_sub
      split: if_splits)

lemma js_less_trans: "js_less u v \<Longrightarrow> js_less v w \<Longrightarrow> js_less u w"
  by (cases u; cases v; cases w) (auto intro: num_less_trans)

lemma js_less_asym: "js_less v w \<Longrightarrow> \<not> js_less w v"
  by (cases v; cases w) (auto dest: num_less_asym)

lemma js_less_total: "comparable v w \<Longrightarrow> v \<noteq> w \<Longrightarrow> js_less v w \<or> js_less w v"
  by (auto simp: comparable_def is_string_iff is_ordered_number_iff dest: num_less_total)

lemma same_type_comparable:
  "list_all is_string vs \<or> list_all is_ordered_number vs
   \<Longrightarrow> v \<in> set vs \<Longrightarrow> w \<in> set vs \<Longrightarrow> comparable v w"
  by (auto simp: comparable_def list_all_iff)

text \<open>
  C4. For every record collection whose values under the column key are totally
  ordered (all strings, or all numbers other than not-a-number, or at most one value)
  and pairwise distinct,
  the collection sorted by that column descending is the exact reverse of the
  collection sorted by it ascending.
\<close>

theorem descending_is_reverse_of_ascending:
  assumes ord: "totally_ordered (column_values h k dat)"
    and dist: "distinct (column_values h k dat)"
  shows "sortedData h dat (Some \<lparr>sort_config.key = k, direction = Desc\<rparr>)
         = rev (sortedData h dat (Some \<lparr>sort_config.key = k, direction = Asc\<rparr>))"
proof (cases "length dat \<le> 1")
  case True
  then have "dat = [] \<or> (\<exists>r. dat = [r])"
    by (cases dat) auto
  then show ?thesis by (auto simp: sortedData_def)
next
  case False
  then have same: "list_all is_string (column_values h k dat)
      \<or> list_all is_ordered_number (column_values h k dat)"
    using ord by (simp add: totally_ordered_def column_values_def)
  define f where "f r = get_prop (h r) k" for r
  define L where "L a b = js_less (f a) (f b)" for a b
  define asc where "asc = comparator h \<lparr>sort_config.key = k, direction = Asc\<rparr>"
  define desc where "desc = comparator h \<lparr>sort_config.key = k, direction = Desc\<rparr>"
  have vals: "column_values h k dat = map f dat"
    by (simp add: column_values_def f_def)
  have inj: "inj_on f (set dat)" and ddat: "distinct dat"
    using dist unfolding vals by (simp_all add: distinct_map)
  have comp: "comparable (f a) (f b)" if "a \<in> set dat" "b \<in> set dat" for a b
    using same_type_comparable [OF same, of "f a" "f b"] that unfolding vals by simp
  have pos_asc: "is_positive (asc a b) = L b a" if "a \<in> set dat" "b \<in> set dat" for a b
    using is_positive_compare_Asc [OF comp [OF that]]
    by (simp add: asc_def comparator_def L_def f_def)
  have pos_desc: "is_positive (desc a b) = L\<inverse>\<inverse> b a" if "a \<in> set dat" "b \<in> set dat" for a b
    using is_positive_compare_Desc [OF comp [OF that]]
    by (simp add: desc_def comparator_def L_def f_def)
  have total: "L a b \<or> L b a" if "a \<in> set dat" "b \<in> set dat" "a \<noteq> b" for a b
  proof -
    have "f a \<noteq> f b" using inj that by (auto dest: inj_onD)
    then show ?thesis using js_less_total [OF comp [OF that(1,2)]] by (simp add: L_def)
  qed
  have trans: "L a c" if "L a b" "L b c" for a b c
    using that js_less_trans [of "f a" "f b" "f c"] by (simp add: L_def)
  have asym: "\<not> L b a" if "L a b" for a b
    using that js_less_asym [of "f a" "f b"] by (simp add: L_def)
  have s_asc: "sorted_wrt L (array_sort asc dat)"
    by (rule sorted_array_sort [where A = "set dat"]) (use pos_asc total trans ddat in auto)
  have "sorted_wrt L\<inverse>\<inverse> (array_sort desc dat)"
  proof (rule sorted_array_sort [where A = "set dat"])
    show "L\<inverse>\<inverse> a b \<or> L\<inverse>\<inverse> b a" if "a \<in> set dat" "b \<in> set dat" "a \<noteq> b" for a b
      using total [OF that] by auto
    show "L\<inverse>\<inverse> a c" if "L\<inverse>\<inverse> a b" "L\<inverse>\<inverse> b c" for a b c
      using that trans by auto
  qed (use pos_desc ddat in auto)
  then have s_desc: "sorted_wrt L (rev (array_sort desc dat))"
    by (simp add: sorted_wrt_rev conversep_iff [abs_def])
  have "array_sort asc dat = rev (array_sort desc dat)"
  proof (rule sorted_wrt_unique [where A = "set dat" and L = L])
    show "\<not> L b a" if "L a b" for a b using asym that .
  qed (use s_asc s_desc ddat in \<open>simp_all add: set_array_sort distinct_array_sort\<close>)
  then have "array_sort desc dat = rev (array_sort asc dat)" by simp
  then show ?thesis by (simp add: sortedData_def asc_def desc_def)
qed

text \<open>The sample users by name: ascending, and descending as its reverse.\<close>

theorem descending_is_reverse_of_ascending_witness:
  "totally_ordered (column_values sampleHeap ''name'' sampleData)
   \<and> distinct (column_values sampleHeap ''name'' sampleData)
   \<and> sortedData sampleHeap sampleData (Some \<lparr>sort_config.key = ''name'', direction = Asc\<rparr>)
       = [3, 1, 0, 2]
   \<and> sortedData sampleHeap sampleData (Some \<lparr>sort_config.key = ''name'', direction = Desc\<rparr>)
       = rev [3, 1, 0, 2]"
proof -
  have 1: "totally_ordered (column_values sampleHeap ''name'' sampleData)"
    by (simp add: totally_ordered_def column_values_def sampleData_def sampleHeap_def user_def object_literal_def
        get_prop_def)
  have 2: "distinct (column_values sampleHeap ''name'' sampleData)"
    by (simp add: column_values_def sampleData_def sampleHeap_def user_def object_literal_def get_prop_def)
  have 3: "sortedData sampleHeap sampleData (Some \<lparr>sort_config.key = ''name'', direction = Asc\<rparr>)
       = [3, 1, 0, 2]"
    by (simp add: sortedData_def comparator_def sampleData_def sampleHeap_def user_def object_literal_def
        get_prop_def)
  show ?thesis using 1 2 3 descending_is_reverse_of_ascending [OF 1 2] by simp
qed

section \<open>Sort state\<close>

text \<open>
  C6. A click on a column header whose key is the active sort key in ascending
  direction gives that key descending; on any other prior sort state (none, another key,
  or the same key descending) it gives the clicked key ascending. Nothing else in the
  state changes.
\<close>

theorem handleSort_next:
  "handleSort s k =
     s\<lparr>sortConfig :=
         Some \<lparr>sort_config.key = k,
               direction =
                 (if sortConfig s = Some \<lparr>sort_config.key = k, direction = Asc\<rparr>
                  then Desc else Asc)\<rparr>\<rparr>"
proof (cases "sortConfig s")
  case None
  then show ?thesis by (simp add: handleSort_def)
next
  case (Some c)
  have "c = \<lparr>sort_config.key = k, direction = Asc\<rparr>
          \<longleftrightarrow> sort_config.key c = k \<and> direction c = Asc"
    by (cases c) auto
  with Some show ?thesis by (simp add: handleSort_def)
qed

section \<open>Selection\<close>

text \<open>
  C7. For every selection state and every record, toggling the record twice in a row
  gives back the selection set there was: the same records are selected. (As an array
  the selection can come back in another order, a record that was selected moving to
  the end.)
\<close>

theorem toggle_twice:
  "set (selectedRows (handleRowClick p (handleRowClick p s row) row)) = set (selectedRows s)"
  by (auto simp: handleRowClick_def Let_def)

lemma set_handleRowClick:
  "set (selectedRows (handleRowClick p s row)) \<subseteq> insert row (set (selectedRows s))"
  by (auto simp: handleRowClick_def Let_def)

lemma within_data_dispatch:
  assumes "within_data c"
    and "\<And>p'. ev = NewProps p' \<Longrightarrow> set (selectedRows (snd c)) \<subseteq> set (data p')"
  shows "within_data (dispatch h c ev)"
proof (cases c)
  case (Pair p s)
  show ?thesis
  proof (cases ev)
    case (RowClick row)
    show ?thesis
      using assms(1) set_handleRowClick [of p s row]
      by (auto simp: Pair RowClick within_data_def row_onClick_def set_sortedData)
  next
    case (HeaderClick k)
    then show ?thesis
      using assms(1) by (simp add: Pair within_data_def handleSort_def Let_def)
  next
    case (NewProps p')
    then show ?thesis
      using assms(2) by (simp add: Pair within_data_def)
  qed
qed

lemma within_data_foldl:
  "within_data c \<Longrightarrow> keeps_selected h c evs \<Longrightarrow> within_data (foldl (dispatch h) c evs)"
proof (induction evs arbitrary: c)
  case Nil
  then show ?case by simp
next
  case (Cons ev evs)
  have "within_data (dispatch h c ev)"
  proof (rule within_data_dispatch [OF Cons.prems(1)])
    fix p' assume "ev = NewProps p'"
    then show "set (selectedRows (snd c)) \<subseteq> set (data p')"
      using Cons.prems(2) by (auto simp: list_all_iff)
  qed
  moreover have "keeps_selected h (dispatch h c ev) evs"
    using Cons.prems(2) by (cases ev) simp_all
  ultimately show ?case using Cons.IH by simp
qed

text \<open>
  C2, as the claim states it, fails: a selected record stays selected when new props
  take it out of the data. Here the first sample user is selected and the data is then
  emptied.
\<close>

theorem selection_outlives_data_counterexample:
  "\<not> set (selectedRows (snd (run sampleHeap SelectableRows
            [RowClick 0, NewProps (SelectableRows\<lparr>data := []\<rparr>)])))
       \<subseteq> set (data (fst (run sampleHeap SelectableRows
            [RowClick 0, NewProps (SelectableRows\<lparr>data := []\<rparr>)])))"
  by (simp add: run_def SelectableRows_def sampleData_def initial_state_def table_shown_def
      row_onClick_def handleRowClick_def sortedData_def Let_def)

text \<open>
  C2, amended. In every state reached from the initial one by row clicks, header clicks
  and prop updates of which none takes a selected record out of the data, every
  selected record is, by reference, in the current data.
\<close>

theorem selection_within_data:
  assumes "keeps_selected h (p, initial_state) evs"
  shows "set (selectedRows (snd (run h p evs))) \<subseteq> set (data (fst (run h p evs)))"
  using within_data_foldl [OF _ assms]
  by (simp add: within_data_def run_def initial_state_def)

text \<open>
  Two users are selected, the table is sorted, the data shrinks to these two, and one is
  deselected.
\<close>

theorem selection_within_data_witness:
  "keeps_selected sampleHeap (SelectableRows, initial_state) sampleEvents
   \<and> selectedRows (snd (run sampleHeap SelectableRows sampleEvents)) = [1]
   \<and> set (selectedRows (snd (run sampleHeap SelectableRows sampleEvents)))
       \<subseteq> set (data (fst (run sampleHeap SelectableRows sampleEvents)))"
proof -
  have 1: "keeps_selected sampleHeap (SelectableRows, initial_state) sampleEvents"
    by (simp add: sampleEvents_def SelectableRows_def sampleColumns_def sampleData_def
        initial_state_def table_shown_def row_onClick_def handleRowClick_def handleSort_def
        sortedData_def comparator_def sampleHeap_def user_def object_literal_def get_prop_def Let_def)
  have 2: "selectedRows (snd (run sampleHeap SelectableRows sampleEvents)) = [1]"
    by (simp add: run_def sampleEvents_def SelectableRows_def sampleColumns_def sampleData_def
        initial_state_def table_shown_def row_onClick_def handleRowClick_def handleSort_def
        sortedData_def comparator_def sampleHeap_def user_def object_literal_def get_prop_def Let_def)
  show ?thesis using 1 2 selection_within_data [OF 1] by simp
qed

section \<open>What the table shows\<close>




text \<open>
  A key that is no own field of the record can still name a member the record inherits;
  the cell then shows that member. The sample users inherit \<open>toString\<close>.
\<close>

lemma inherited_member_cell:
  assumes "Column.key column \<notin> dom (own (h row))"
    and "inherited (h row) (Column.key column) = Some v"
  shows "cell_text digits h row column = js_String digits v"
  using assms by (simp add: cell_text_def get_prop_def dom_def)

lemma toString_cell:
  "''toString'' \<notin> dom (own (sampleHeap 0))
   \<and> cell_text (\<lambda>q. []) sampleHeap 0 \<lparr>Column.key = ''toString'', header = ''Text''\<rparr>
       = ''function toString() { [native code] }''"
  by (simp add: cell_text_def sampleHeap_def user_def object_literal_def get_prop_def
      Object_prototype_def native_def dom_def)




section \<open>What the input field shows\<close>

lemma str_includes_iff: "str_includes s t = (\<exists>pre post. s = pre @ t @ post)"
proof
  assume "str_includes s t"
  then obtain i where "take (length t) (drop i s) = t"
    by (auto simp: str_includes_def list_ex_iff)
  then have "s = take i s @ t @ drop (length t) (drop i s)"
    by (metis append_take_drop_id)
  then show "\<exists>pre post. s = pre @ t @ post" by blast
next
  assume "\<exists>pre post. s = pre @ t @ post"
  then obtain pre post where s: "s = pre @ t @ post" by blast
  have "take (length t) (drop (length pre) s) = t" by (simp add: s)
  moreover have "length pre < Suc (length s)" by (simp add: s)
  ultimately show "str_includes s t"
    unfolding str_includes_def list_ex_iff by (metis atLeastLessThan_iff set_upt zero_le)
qed

lemma str_includes_toLowerCase:
  "str_includes (toLowerCase l) t
   = (\<exists>pre mid post. l = pre @ mid @ post \<and> toLowerCase mid = t)"
  unfolding str_includes_iff toLowerCase_def
proof
  assume "\<exists>pre post. map lower_char l = pre @ t @ post"
  then obtain pre post where eq: "map lower_char l = pre @ t @ post" by blast
  define mid where "mid = take (length t) (drop (length pre) l)"
  have "map lower_char mid = take (length t) (drop (length pre) (map lower_char l))"
    by (simp add: mid_def take_map drop_map)
  also have "\<dots> = t" by (simp add: eq)
  finally have "map lower_char mid = t" .
  moreover have "l = take (length pre) l @ mid @ drop (length t) (drop (length pre) l)"
    unfolding mid_def by (simp only: append_take_drop_id)
  ultimately show "\<exists>pre mid post. l = pre @ mid @ post \<and> map lower_char mid = t" by blast
next
  assume "\<exists>pre mid post. l = pre @ mid @ post \<and> map lower_char mid = t"
  then obtain pre mid post where "l = pre @ mid @ post" "map lower_char mid = t" by blast
  then have "map lower_char l = map lower_char pre @ t @ map lower_char post" by simp
  then show "\<exists>pre post. map lower_char l = pre @ t @ post" by blast
qed

text \<open>The code's lowercasing gives \<open>password\<close> on exactly the texts that spell it in either case.\<close>

lemma lower_char_cases:
  "lower_char c = CHR ''p'' \<longleftrightarrow> c = CHR ''p'' \<or> c = CHR ''P''"
  "lower_char c = CHR ''a'' \<longleftrightarrow> c = CHR ''a'' \<or> c = CHR ''A''"
  "lower_char c = CHR ''s'' \<longleftrightarrow> c = CHR ''s'' \<or> c = CHR ''S''"
  "lower_char c = CHR ''w'' \<longleftrightarrow> c = CHR ''w'' \<or> c = CHR ''W''"
  "lower_char c = CHR ''o'' \<longleftrightarrow> c = CHR ''o'' \<or> c = CHR ''O''"
  "lower_char c = CHR ''r'' \<longleftrightarrow> c = CHR ''r'' \<or> c = CHR ''R''"
  "lower_char c = CHR ''d'' \<longleftrightarrow> c = CHR ''d'' \<or> c = CHR ''D''"
  by (auto simp: lower_char_def)

lemma toLowerCase_password: "toLowerCase w = ''password'' \<longleftrightarrow> spells_password w"
  by (auto simp: toLowerCase_def spells_password_def map_eq_Cons_conv list_all2_Cons2
      lower_char_cases)

text \<open>
  C3. The version of the field without a password flag renders its input masked in its
  first state, whatever the props (and as plain text after one click on the toggle); and
  in every state it renders the visibility toggle exactly when there is a label and a
  part of the label spells \<open>password\<close>, each letter small or capital.
\<close>

theorem plain_field_masked_and_toggle_by_label:
  "input_type (InputField_plain p isPasswordVisible_initial) = Password
   \<and> input_type (InputField_plain p (toggle_onClick_plain isPasswordVisible_initial)) = Text
   \<and> toggle_button (InputField_plain p isPasswordVisible)
       = (\<exists>l pre mid post.
            label p = Some l \<and> l = pre @ mid @ post \<and> spells_password mid)"
  by (cases "label p")
    (simp_all add: InputField_plain_def isPasswordVisible_initial_def toggle_onClick_plain_def
      str_includes_toLowerCase toLowerCase_password)

text \<open>A label with the word in capitals gets the toggle, and the field is masked at first.\<close>

theorem plain_field_masked_and_toggle_by_label_witness:
  "input_type (InputField_plain (plain_field ''Confirm PASSWORD'') isPasswordVisible_initial)
     = Password
   \<and> toggle_button (InputField_plain (plain_field ''Confirm PASSWORD'') isPasswordVisible_initial)"
proof -
  have "label (plain_field ''Confirm PASSWORD'') = Some (''Confirm '' @ ''PASSWORD'' @ [])
      \<and> spells_password ''PASSWORD''"
    by (simp add: plain_field_def spells_password_def)
  then have "\<exists>l pre mid post. label (plain_field ''Confirm PASSWORD'') = Some l
      \<and> l = pre @ mid @ post \<and> spells_password mid"
    by blast
  then show ?thesis
    using plain_field_masked_and_toggle_by_label
      [of "plain_field ''Confirm PASSWORD''" isPasswordVisible_initial]
    by simp
qed

text \<open>A label without the word gets no toggle, and the field is masked all the same.\<close>

lemma email_field_masked_without_toggle:
  "input_type (InputField_plain (plain_field ''Email Address'') isPasswordVisible_initial)
     = Password
   \<and> \<not> toggle_button (InputField_plain (plain_field ''Email Address'') isPasswordVisible)"
  by (simp add: InputField_plain_def plain_field_def isPasswordVisible_initial_def
      str_includes_def toLowerCase_def lower_char_def)

text \<open>
  C9. For the clearable field with a current value that is not empty, the clear button is
  there; the clear action makes the value, and with it the displayed value, the empty
  string, and when a change notifier is supplied it is called once more, with the empty
  string.
\<close>

theorem clear_empties_and_notifies:
  assumes "isClearable p" and "value s \<noteq> []"
  shows "clear_button (InputField p s)
         \<and> value (handleClear p s) = []
         \<and> input_value (InputField p (handleClear p s)) = Some []
         \<and> onChange_calls (handleClear p s)
             = (if onChange p then onChange_calls s @ [[]] else onChange_calls s)"
  using assms by (simp add: InputField_def handleClear_def)

text \<open>The clearable story after \<open>abc\<close> was typed.\<close>

theorem clear_empties_and_notifies_witness:
  "isClearable ClearableInput
   \<and> value (handleInputChange ClearableInput (initial_field_state ClearableInput) ''abc'') = ''abc''
   \<and> clear_button (InputField ClearableInput
         (handleInputChange ClearableInput (initial_field_state ClearableInput) ''abc''))
   \<and> input_value (InputField ClearableInput
         (handleClear ClearableInput
            (handleInputChange ClearableInput (initial_field_state ClearableInput) ''abc'')))
       = Some []
   \<and> onChange_calls
         (handleClear ClearableInput
            (handleInputChange ClearableInput (initial_field_state ClearableInput) ''abc''))
       = [''abc'', []]"
proof -
  define s where "s = handleInputChange ClearableInput (initial_field_state ClearableInput) ''abc''"
  have 1: "isClearable ClearableInput" by (simp add: ClearableInput_def)
  have 2: "value s = ''abc''"
    by (simp add: s_def handleInputChange_def)
  have 3: "value s \<noteq> []" using 2 by simp
  have 4: "onChange ClearableInput" "onChange_calls s = [''abc'']"
    by (simp_all add: s_def ClearableInput_def initial_field_state_def handleInputChange_def)
  have "isClearable ClearableInput \<and> value s = ''abc'' \<and> clear_button (InputField ClearableInput s)
    \<and> input_value (InputField ClearableInput (handleClear ClearableInput s)) = Some []
    \<and> onChange_calls (handleClear ClearableInput s) = [''abc'', []]"
    using 1 2 4 clear_empties_and_notifies [OF 1 3] by simp
  then show ?thesis by (simp only: s_def)
qed

text \<open>
  C10. For the field in password mode the toggle is there and the first render masks
  the value; after one click on the toggle the input is plain text, after a second it is
  masked again; and in any state a click on the toggle leaves the value, what the input
  displays, and the calls made to the change notifier as they were.
\<close>

theorem password_toggle_masks_and_reveals:
  assumes "isPassword p"
  shows "toggle_button (InputField p s)
         \<and> input_type (InputField p (initial_field_state p)) = Password
         \<and> input_type (InputField p (toggle_onClick (initial_field_state p))) = Text
         \<and> input_type (InputField p (toggle_onClick (toggle_onClick (initial_field_state p))))
             = Password
         \<and> value (toggle_onClick s) = value s
         \<and> input_value (InputField p (toggle_onClick s)) = input_value (InputField p s)
         \<and> onChange_calls (toggle_onClick s) = onChange_calls s"
  using assms by (simp add: InputField_def toggle_onClick_def initial_field_state_def)

text \<open>The password story, with \<open>secret\<close> typed into the field.\<close>

theorem password_toggle_masks_and_reveals_witness:
  "isPassword PasswordWithToggle
   \<and> input_type (InputField PasswordWithToggle (initial_field_state PasswordWithToggle))
       = Password
   \<and> input_type (InputField PasswordWithToggle
         (toggle_onClick (initial_field_state PasswordWithToggle))) = Text
   \<and> input_type (InputField PasswordWithToggle
         (toggle_onClick (toggle_onClick (initial_field_state PasswordWithToggle)))) = Password
   \<and> input_value (InputField PasswordWithToggle
         (toggle_onClick
            (handleInputChange PasswordWithToggle (initial_field_state PasswordWithToggle)
               ''secret'')))
       = Some ''secret''"
proof -
  define s where
    "s = handleInputChange PasswordWithToggle (initial_field_state PasswordWithToggle) ''secret''"
  have 1: "isPassword PasswordWithToggle" by (simp add: PasswordWithToggle_def)
  have 2: "input_value (InputField PasswordWithToggle s) = Some ''secret''"
    by (simp add: InputField_def s_def handleInputChange_def)
  have "isPassword PasswordWithToggle
   \<and> input_type (InputField PasswordWithToggle (initial_field_state PasswordWithToggle))
       = Password
   \<and> input_type (InputField PasswordWithToggle
         (toggle_onClick (initial_field_state PasswordWithToggle))) = Text
   \<and> input_type (InputField PasswordWithToggle
         (toggle_onClick (toggle_onClick (initial_field_state PasswordWithToggle)))) = Password
   \<and> input_value (InputField PasswordWithToggle (toggle_onClick s)) = Some ''secret''"
    using 1 2 password_toggle_masks_and_reveals [OF 1, of s] by simp
  then show ?thesis by (simp only: s_def)
qed

end
